theory Spec2Isabelle
  imports Complex_Main "HOL-Library.Product_Lexorder" "HOL-Library.Multiset"
begin

section \<open>Numbers, faults and sample points\<close>

text \<open>
  The scripts compute with Python and numpy floats. The embedding computes with exact
  rationals: every finite float is a rational, and rounding is not modelled. What is
  modelled of the float semantics is where it changes the control flow:
  \<^item> Python's float division by zero raises \<open>ZeroDivisionError\<close>;
  \<^item> numpy's division by zero raises nothing: it yields \<open>inf\<close> or \<open>nan\<close> with a warning,
    and every further sum or product with it is again \<open>inf\<close> or \<open>nan\<close>. The embedding
    reports such a value as \<open>NonFinite\<close>, which therefore is not an exception;
  \<^item> indexing a numpy array out of range raises \<open>IndexError\<close>, and the minimum of an
    empty array, or unpacking an empty \<open>zip\<close> into two names, raises \<open>ValueError\<close>.
\<close>

datatype fault = IndexError | ValueError | ZeroDivisionError | RuntimeError | NonFinite

type_synonym point = "rat \<times> rat"

text \<open>The straight line through two samples, as every slope formula of the scripts has it.\<close>

fun line_through :: "point \<Rightarrow> point \<Rightarrow> rat \<Rightarrow> rat" where
  "line_through (x0, y0) (x1, y1) x = y0 + (y1 - y0) / (x1 - x0) * (x - x0)"

section \<open>numpy's \<open>interp\<close>\<close>

text \<open>
  \<open>np.interp(x, xp, fp)\<close> is numpy's piecewise linear interpolant for increasing sample
  flows \<open>xp\<close>: left of the first sample it returns the first value, right of the last
  sample the last value, and between two neighbouring samples the point on the line through
  them. It raises \<open>ValueError\<close> on an empty sample array. The scan below looks for the
  first sample whose flow exceeds \<open>x\<close>; it is entered with \<open>x\<close> at or right of the current
  sample, so the slope's denominator is positive whenever it is computed.
\<close>

fun interp_scan :: "rat \<Rightarrow> point \<Rightarrow> point list \<Rightarrow> rat" where
  "interp_scan x p [] = snd p"
| "interp_scan x p (r # rs) =
     (if x < fst r then line_through p r x else interp_scan x r rs)"

definition np_interp :: "rat \<Rightarrow> point list \<Rightarrow> fault + rat" where
  "np_interp x pts =
     (case pts of
        [] \<Rightarrow> Inl ValueError
      | p # ps \<Rightarrow>
          if x < fst p then Inr (snd p)
          else if fst (last pts) < x then Inr (snd (last pts))
          else Inr (interp_scan x p ps))"

section \<open>\<open>build_interp\<close> of master.py\<close>

text \<open>
  \<open>build_interp(points)\<close> sorts the points by flow (Python's \<open>sorted\<close> with a key is
  stable), builds the arrays \<open>q\<close> and \<open>y\<close>, and returns the closure \<open>f\<close> with
  \<open>q.min()\<close> and \<open>q.max()\<close>. The closure is represented by the sorted points it
  captures. Nothing is validated: the only failure of the construction is \<open>q.min()\<close> on
  an empty array.
\<close>

definition build_interp :: "point list \<Rightarrow> fault + (point list \<times> rat \<times> rat)" where
  "build_interp points =
     (let pts = sort_key fst points in
      case pts of
        [] \<Rightarrow> Inl ValueError
      | p # ps \<Rightarrow> Inr (pts, fold min (map fst ps) (fst p), fold max (map fst ps) (fst p)))"

text \<open>
  The closure \<open>f\<close> at one query flow \<open>qx\<close> (every caller passes a scalar, which
  \<open>np.atleast_1d\<close> wraps and the last line unwraps). \<open>q[0]\<close>, \<open>q[1]\<close>, \<open>q[-1]\<close> and
  \<open>q[-2]\<close> are read only in the branch that needs them.
\<close>

definition build_interp_f :: "point list \<Rightarrow> rat \<Rightarrow> fault + rat" where
  "build_interp_f pts qx =
     (case pts of
        [] \<Rightarrow> Inl IndexError
      | p0 # rest \<Rightarrow>
          if qx \<le> fst p0 then
            (case rest of
               [] \<Rightarrow> Inl IndexError
             | p1 # _ \<Rightarrow>
                 if fst p1 - fst p0 = 0 then Inl NonFinite
                 else Inr (snd p0 + (snd p1 - snd p0) / (fst p1 - fst p0) * (qx - fst p0)))
          else if fst (last pts) \<le> qx then
            (case rev pts of
               pn # pm # _ \<Rightarrow>
                 if fst pn - fst pm = 0 then Inl NonFinite
                 else Inr (snd pn + (snd pn - snd pm) / (fst pn - fst pm) * (qx - fst pn))
             | _ \<Rightarrow> Inl IndexError)
          else np_interp qx pts)"

text \<open>Building a curve and evaluating it, as \<open>head_interp(Q)\<close> does in the script.\<close>

definition curve_estimate :: "point list \<Rightarrow> rat \<Rightarrow> fault + rat" where
  "curve_estimate points qx =
     (case build_interp points of
        Inl e \<Rightarrow> Inl e
      | Inr (pts, lo, hi) \<Rightarrow> build_interp_f pts qx)"

section \<open>\<open>build_interp\<close> of final.py and \<open>interpolate\<close> of veremos.py\<close>

text \<open>
  final.py sorts the pairs themselves (by flow, then by value) and evaluates with
  \<open>np.interp\<close> alone, so outside the samples the value is held flat. Unpacking
  \<open>zip(*sorted(pts))\<close> fails on an empty list.
\<close>

definition final_build_interp :: "point list \<Rightarrow> fault + (point list \<times> rat \<times> rat)" where
  "final_build_interp pts =
     (case sort pts of
        [] \<Rightarrow> Inl ValueError
      | p # ps \<Rightarrow> Inr (p # ps, fold min (map fst ps) (fst p), fold max (map fst ps) (fst p)))"

definition final_build_interp_f :: "point list \<Rightarrow> rat \<Rightarrow> fault + rat" where
  "final_build_interp_f spts q = np_interp q spts"

definition final_estimate :: "point list \<Rightarrow> rat \<Rightarrow> fault + rat" where
  "final_estimate pts q =
     (case final_build_interp pts of
        Inl e \<Rightarrow> Inl e
      | Inr (spts, lo, hi) \<Rightarrow> final_build_interp_f spts q)"

text \<open>
  veremos.py does not sort; it returns the first value left of the first sample, the last
  value right of the last one, and calls \<open>np.interp\<close> otherwise.
\<close>

definition interpolate :: "point list \<Rightarrow> rat \<Rightarrow> fault + rat" where
  "interpolate xy q =
     (case xy of
        [] \<Rightarrow> Inl ValueError
      | p # ps \<Rightarrow>
          if q < fst p then Inr (snd p)
          else if fst (last xy) < q then Inr (snd (last xy))
          else np_interp q xy)"

text \<open>The digitised head curve of final.py and veremos.py.\<close>

definition head_pts :: "point list" where
  "head_pts = [(40, 970), (80, 960), (160, 890), (200, 840), (280, 620)]"

text \<open>In a list of strictly increasing flows, neighbouring samples form the brackets.\<close>

definition increasing_flows :: "point list \<Rightarrow> bool" where
  "increasing_flows pts = sorted_wrt (<) (map fst pts)"

definition brackets :: "point list \<Rightarrow> (point \<times> point) list" where
  "brackets pts = zip pts (tl pts)"

section \<open>The pump curves and the arrangement search of master.py\<close>

definition head_points :: "point list" where
  "head_points =
     [(40, 970 - 400), (80, 960 - 400), (160, 890 - 400), (200, 840 - 400), (280, 620 - 400)]"

definition eff_points :: "point list" where
  "eff_points = [(40, 33), (80, 56), (160, 81), (220, 85), (280, 79)]"

definition power_points :: "point list" where
  "power_points =
     [(40, 1200), (80, 1400), (160, 1750), (200, 1950), (260, 2150), (280, 3400)]"

definition head_interp :: "rat \<Rightarrow> fault + rat" where
  "head_interp = curve_estimate head_points"

definition eff_interp :: "rat \<Rightarrow> fault + rat" where
  "eff_interp = curve_estimate eff_points"

definition power_interp :: "rat \<Rightarrow> fault + rat" where
  "power_interp = curve_estimate power_points"

text \<open>One row of \<open>candidatos\<close>; \<open>eta_pct\<close> is the column \<open>eta_%\<close>.\<close>

record candidate =
  N_par :: int
  Q_bomba_Ls :: rat
  H_bomba_m :: rat
  eta_pct :: rat
  P_bomba_kW :: rat
  N_est :: int
  H_total_disp_m :: rat
  P_total_kW :: rat

text \<open>
  The body of the loop for one \<open>N_par\<close>, with the total flow \<open>Q_total_Ls\<close> and the
  required head \<open>H_total\<close> as inputs. Nothing is filtered. \<open>H_total / Hb\<close> divides two
  Python floats, so a head of zero raises \<open>ZeroDivisionError\<close>; \<open>math.ceil\<close> returns an
  integer of either sign. The three curves of the script have distinct flows, so their
  estimates always return a number and the first three \<open>Inl\<close> branches are never taken.
\<close>

definition candidato :: "rat \<Rightarrow> rat \<Rightarrow> int \<Rightarrow> fault + candidate" where
  "candidato Q_total_Ls H_total n =
     (let Q_bomba = Q_total_Ls / of_int n in
      case head_interp Q_bomba of Inl e \<Rightarrow> Inl e | Inr Hb \<Rightarrow>
      case eff_interp Q_bomba of Inl e \<Rightarrow> Inl e | Inr etab \<Rightarrow>
      case power_interp Q_bomba of Inl e \<Rightarrow> Inl e | Inr Pb \<Rightarrow>
      if Hb = 0 then Inl ZeroDivisionError
      else
        let N_st = \<lceil>H_total / Hb\<rceil> in
        Inr \<lparr>N_par = n, Q_bomba_Ls = Q_bomba, H_bomba_m = Hb, eta_pct = etab,
             P_bomba_kW = Pb, N_est = N_st, H_total_disp_m = of_int N_st * Hb,
             P_total_kW = of_int n * of_int N_st * Pb\<rparr>)"

fun candidatos_loop :: "rat \<Rightarrow> rat \<Rightarrow> int list \<Rightarrow> candidate list \<Rightarrow> fault + candidate list" where
  "candidatos_loop Q H [] acc = Inr acc"
| "candidatos_loop Q H (n # ns) acc =
     (case candidato Q H n of
        Inl e \<Rightarrow> Inl e
      | Inr c \<Rightarrow> candidatos_loop Q H ns (acc @ [c]))"

text \<open>\<open>range(1, 10)\<close>, then the test \<open>if not candidatos: raise RuntimeError\<close>.\<close>

definition candidatos :: "rat \<Rightarrow> rat \<Rightarrow> fault + candidate list" where
  "candidatos Q H = candidatos_loop Q H [1..9] []"

definition arrangement_search :: "rat \<Rightarrow> rat \<Rightarrow> fault + candidate list" where
  "arrangement_search Q H =
     (case candidatos Q H of
        Inl e \<Rightarrow> Inl e
      | Inr cs \<Rightarrow> if cs = [] then Inl RuntimeError else Inr cs)"

text \<open>
  \<open>df_candidatos.sort_values("P_total_kW")\<close> is pandas' sort with its default
  \<open>kind='quicksort'\<close>, which pandas documents as not stable (only \<open>mergesort\<close> and
  \<open>stable\<close> are). What the call fixes is that the result holds the same rows in ascending
  order of the column; the order of rows with equal power is left open. So the sorted table
  is a relation between the candidates and the rows \<open>ys\<close>, and \<open>mejor\<close> is the first row.
\<close>

definition sort_values :: "candidate list \<Rightarrow> candidate list \<Rightarrow> bool" where
  "sort_values cs ys \<longleftrightarrow> mset ys = mset cs \<and> sorted (map P_total_kW ys)"

definition df_candidatos :: "rat \<Rightarrow> rat \<Rightarrow> candidate list \<Rightarrow> bool" where
  "df_candidatos Q H ys =
     (case arrangement_search Q H of
        Inl e \<Rightarrow> False
      | Inr cs \<Rightarrow> sort_values cs ys)"


section \<open>The wall thickness rows of estanques.py and veremos.py\<close>







section \<open>Facts about the curve evaluators\<close>

lemma increasing_flows_Cons:
  "increasing_flows (p # ps) \<longleftrightarrow> (\<forall>r \<in> set ps. fst p < fst r) \<and> increasing_flows ps"
  by (auto simp: increasing_flows_def)

lemma sort_key_increasing: "increasing_flows pts \<Longrightarrow> sort_key fst pts = pts"
  unfolding increasing_flows_def
  by (intro sort_key_id_if_sorted) (simp add: strict_sorted_iff)

lemma sorted_increasing: "increasing_flows pts \<Longrightarrow> sorted pts"
proof (induction pts)
  case Nil
  then show ?case by simp
next
  case (Cons p ps)
  then have "\<forall>r \<in> set ps. p \<le> r"
    by (auto simp: increasing_flows_Cons less_eq_prod_def)
  with Cons show ?case by (simp add: increasing_flows_Cons)
qed

lemma sort_increasing: "increasing_flows pts \<Longrightarrow> sort pts = pts"
  by (simp add: sorted_increasing sorted_sort_id)

lemma increasing_last:
  "increasing_flows (p # ps) \<Longrightarrow> r \<in> set (p # ps) \<Longrightarrow> fst r \<le> fst (last (p # ps))"
proof (induction ps arbitrary: p r)
  case Nil
  then show ?case by simp
next
  case (Cons s ss)
  show ?case
  proof (cases "r = p")
    case True
    have "fst p < fst s" using Cons.prems(1) by (simp add: increasing_flows_Cons)
    moreover have "fst s \<le> fst (last (s # ss))"
      using Cons.IH [of s s] Cons.prems(1) by (simp add: increasing_flows_Cons)
    ultimately show ?thesis using True by simp
  next
    case False
    then have "r \<in> set (s # ss)" using Cons.prems(2) by simp
    then have "fst r \<le> fst (last (s # ss))"
      using Cons.IH [of s r] Cons.prems(1) by (simp add: increasing_flows_Cons)
    then show ?thesis by simp
  qed
qed

lemma line_through_left: "fst p \<noteq> fst r \<Longrightarrow> line_through p r (fst p) = snd p"
  by (cases p; cases r) simp

lemma line_through_right: "fst p \<noteq> fst r \<Longrightarrow> line_through p r (fst r) = snd r"
  by (cases p; cases r) (simp add: field_simps)

text \<open>At a sample's flow the scan returns the sample's value.\<close>

lemma interp_scan_sample:
  "increasing_flows (p # ps) \<Longrightarrow> s \<in> set (p # ps) \<Longrightarrow> interp_scan (fst s) p ps = snd s"
proof (induction ps arbitrary: p)
  case Nil
  then show ?case by simp
next
  case (Cons r rs)
  have pr: "fst p < fst r" using Cons.prems(1) by (simp add: increasing_flows_Cons)
  have inc: "increasing_flows (r # rs)" using Cons.prems(1) by (simp add: increasing_flows_Cons)
  show ?case
  proof (cases "s = p")
    case True
    then show ?thesis using pr by (simp add: line_through_left)
  next
    case False
    then have mem: "s \<in> set (r # rs)" using Cons.prems(2) by simp
    then have "fst r \<le> fst s" using inc by (auto simp: increasing_flows_Cons)
    then show ?thesis using Cons.IH [OF inc mem] by simp
  qed
qed

text \<open>Inside a bracket the scan returns the point on the line through its two samples.\<close>

lemma interp_scan_bracket:
  "increasing_flows (p # ps) \<Longrightarrow> (a, b) \<in> set (brackets (p # ps)) \<Longrightarrow>
   fst a \<le> x \<Longrightarrow> x \<le> fst b \<Longrightarrow> interp_scan x p ps = line_through a b x"
proof (induction ps arbitrary: p)
  case Nil
  then show ?case by (simp add: brackets_def)
next
  case (Cons r rs)
  have pr: "fst p < fst r" using Cons.prems(1) by (simp add: increasing_flows_Cons)
  have inc: "increasing_flows (r # rs)" using Cons.prems(1) by (simp add: increasing_flows_Cons)
  from Cons.prems(2) consider "a = p" "b = r" | "(a, b) \<in> set (brackets (r # rs))"
    by (auto simp: brackets_def)
  then show ?case
  proof cases
    case 1
    show ?thesis
    proof (cases "x < fst r")
      case True
      then show ?thesis using 1 by simp
    next
      case False
      then have xr: "x = fst r" using Cons.prems(4) 1 by simp
      have "interp_scan (fst r) r rs = snd r"
        using interp_scan_sample [OF inc, of r] by simp
      then show ?thesis using xr 1 pr by (simp add: line_through_right)
    qed
  next
    case 2
    then have "a \<in> set (r # rs)" unfolding brackets_def by (rule set_zip_leftD)
    then have "fst r \<le> fst a" using inc by (auto simp: increasing_flows_Cons)
    then have "\<not> x < fst r" using Cons.prems(3) by simp
    then show ?thesis using Cons.IH [OF inc 2 Cons.prems(3) Cons.prems(4)] by simp
  qed
qed

lemma curve_estimate_increasing:
  "increasing_flows pts \<Longrightarrow> pts \<noteq> [] \<Longrightarrow> curve_estimate pts qx = build_interp_f pts qx"
  by (simp add: curve_estimate_def build_interp_def sort_key_increasing split: list.split)

lemma final_estimate_increasing:
  "increasing_flows pts \<Longrightarrow> pts \<noteq> [] \<Longrightarrow> final_estimate pts q = np_interp q pts"
  by (simp add: final_estimate_def final_build_interp_def final_build_interp_f_def
      sort_increasing split: list.split)

lemma interpolate_inside:
  "pts \<noteq> [] \<Longrightarrow> fst (hd pts) \<le> q \<Longrightarrow> q \<le> fst (last pts) \<Longrightarrow>
   interpolate pts q = np_interp q pts"
  by (cases pts) (simp_all add: interpolate_def)

lemma build_interp_f_inside:
  "pts \<noteq> [] \<Longrightarrow> fst (hd pts) < q \<Longrightarrow> q < fst (last pts) \<Longrightarrow>
   build_interp_f pts q = np_interp q pts"
  by (cases pts) (simp_all add: build_interp_f_def)

lemma np_interp_inside:
  "fst p \<le> q \<Longrightarrow> q \<le> fst (last (p # ps)) \<Longrightarrow>
   np_interp q (p # ps) = Inr (interp_scan q p ps)"
  by (simp add: np_interp_def)

lemma ends_with_two: "2 \<le> length pts \<Longrightarrow> \<exists>xs a b. pts = xs @ [a, b]"
proof (cases pts rule: rev_cases)
  case Nil
  assume "2 \<le> length pts"
  with Nil show ?thesis by simp
next
  case (snoc ys b)
  assume len: "2 \<le> length pts"
  show ?thesis
  proof (cases ys rule: rev_cases)
    case Nil
    with snoc len show ?thesis by simp
  next
    case (snoc xs a)
    with \<open>pts = ys @ [b]\<close> show ?thesis by simp
  qed
qed

lemma build_interp_f_left:
  "increasing_flows (p0 # p1 # rest) \<Longrightarrow> qx \<le> fst p0 \<Longrightarrow>
   build_interp_f (p0 # p1 # rest) qx =
     Inr (snd p0 + (snd p1 - snd p0) / (fst p1 - fst p0) * (qx - fst p0))"
  by (simp add: build_interp_f_def increasing_flows_Cons)

lemma build_interp_f_high:
  assumes "\<not> qx \<le> fst p0" and "fst (last (p0 # rest)) \<le> qx"
    and "rev (p0 # rest) = pn # pm # ys" and "fst pn \<noteq> fst pm"
  shows "build_interp_f (p0 # rest) qx =
     Inr (snd pn + (snd pn - snd pm) / (fst pn - fst pm) * (qx - fst pn))"
proof -
  have "build_interp_f (p0 # rest) qx =
      (case rev (p0 # rest) of
         pn # pm # _ \<Rightarrow>
           if fst pn - fst pm = 0 then Inl NonFinite
           else Inr (snd pn + (snd pn - snd pm) / (fst pn - fst pm) * (qx - fst pn))
       | _ \<Rightarrow> Inl IndexError)"
    using assms(1,2) by (simp add: build_interp_f_def del: rev.simps last.simps)
  also have "\<dots> = Inr (snd pn + (snd pn - snd pm) / (fst pn - fst pm) * (qx - fst pn))"
    unfolding assms(3) using assms(4) by simp
  finally show ?thesis .
qed

lemma build_interp_f_right:
  assumes "increasing_flows (xs @ [pm, pn])" and "fst pn \<le> qx"
  shows "build_interp_f (xs @ [pm, pn]) qx =
     Inr (snd pn + (snd pn - snd pm) / (fst pn - fst pm) * (qx - fst pn))"
proof -
  have lt: "fst pm < fst pn"
    using assms(1) by (simp add: increasing_flows_def sorted_wrt_append)
  have first: "fst (hd (xs @ [pm, pn])) < fst pn"
    using assms(1) lt by (cases xs) (auto simp: increasing_flows_def sorted_wrt_append)
  obtain p0 rest where split: "xs @ [pm, pn] = p0 # rest"
    by (cases xs) auto
  have "\<not> qx \<le> fst p0" using first assms(2) split by simp
  moreover have "fst (last (p0 # rest)) \<le> qx" using assms(2) split [symmetric] by simp
  moreover have "rev (p0 # rest) = pn # pm # rev xs" using split [symmetric] by simp
  moreover have "fst pn \<noteq> fst pm" using lt by simp
  ultimately have "build_interp_f (p0 # rest) qx =
      Inr (snd pn + (snd pn - snd pm) / (fst pn - fst pm) * (qx - fst pn))"
    by (rule build_interp_f_high)
  then show ?thesis using split by simp
qed




lemma increasing_flows_inj:
  assumes "increasing_flows pts" and "s \<in> set pts" and "t \<in> set pts" and "fst s = fst t"
  shows "s = t"
proof -
  have "distinct (map fst pts)"
    using assms(1) by (simp add: increasing_flows_def strict_sorted_iff)
  then have "inj_on fst (set pts)" by (simp add: distinct_map)
  then show ?thesis using assms(2-4) by (auto dest: inj_onD)
qed

lemma increasing_first:
  "increasing_flows (p # ps) \<Longrightarrow> r \<in> set (p # ps) \<Longrightarrow> fst p \<le> fst r"
  by (auto simp: increasing_flows_Cons)

lemma np_interp_sample:
  assumes "increasing_flows pts" and "s \<in> set pts"
  shows "np_interp (fst s) pts = Inr (snd s)"
proof -
  obtain p ps where pts: "pts = p # ps" using assms(2) by (cases pts) auto
  have lo: "fst p \<le> fst s" using assms increasing_first pts by blast
  have hi: "fst s \<le> fst (last (p # ps))" using assms increasing_last pts by blast
  show ?thesis
    using np_interp_inside [OF lo hi] interp_scan_sample [of p ps s] assms pts by simp
qed

lemma build_interp_f_sample:
  assumes "increasing_flows pts" and "2 \<le> length pts" and "s \<in> set pts"
  shows "build_interp_f pts (fst s) = Inr (snd s)"
proof -
  obtain p0 p1 rest where pts: "pts = p0 # p1 # rest"
    using assms(2) by (cases pts; cases "tl pts") auto
  obtain xs pm pn where pts': "pts = xs @ [pm, pn]"
    using ends_with_two [OF assms(2)] by blast
  have first: "fst p0 \<le> fst s" using assms(1,3) increasing_first pts by blast
  have last: "fst s \<le> fst pn" using increasing_last [of p0 "p1 # rest" s] assms(1,3) pts pts'
    by (metis last_snoc append_Cons append_Nil append_assoc)
  consider "fst s \<le> fst p0" | "fst pn \<le> fst s" | "fst p0 < fst s" "fst s < fst pn"
    by linarith
  then show ?thesis
  proof cases
    case 1
    then have "fst s = fst p0" using first by simp
    then have "s = p0" using increasing_flows_inj [OF assms(1,3)] pts by simp
    then show ?thesis
      using build_interp_f_left [of p0 p1 rest "fst p0"] assms(1) pts by simp
  next
    case 2
    then have "fst s = fst pn" using last by simp
    then have "s = pn" using increasing_flows_inj [OF assms(1,3)] pts' by simp
    then show ?thesis
      using build_interp_f_right [of xs pm pn "fst pn"] assms(1) pts' by simp
  next
    case 3
    have "fst (hd pts) < fst s" using 3(1) pts by simp
    moreover have "fst s < fst (List.last pts)" using 3(2) pts' by simp
    ultimately have "build_interp_f pts (fst s) = np_interp (fst s) pts"
      using build_interp_f_inside [of pts "fst s"] pts by simp
    then show ?thesis using np_interp_sample [OF assms(1,3)] by simp
  qed
qed

text \<open>
  Claim C6. For a curve built from at least two samples with strictly increasing flows,
  the estimate at the flow of each sample is that sample's value: for \<open>build_interp\<close> of
  master.py (through its extrapolation branches at the first and the last sample) and for
  \<open>build_interp\<close> of final.py.
\<close>

theorem sample_round_trip:
  assumes "increasing_flows pts" and "2 \<le> length pts" and "(x, y) \<in> set pts"
  shows "curve_estimate pts x = Inr y \<and> final_estimate pts x = Inr y"
proof -
  have ne: "pts \<noteq> []" using assms(2) by auto
  have "curve_estimate pts x = Inr y"
    using build_interp_f_sample [OF assms] curve_estimate_increasing [OF assms(1) ne] by simp
  moreover have "final_estimate pts x = Inr y"
    using np_interp_sample [OF assms(1,3)] final_estimate_increasing [OF assms(1) ne] by simp
  ultimately show ?thesis by simp
qed

theorem sample_round_trip_witness:
  "increasing_flows head_pts \<and> 2 \<le> length head_pts \<and> (160, 890) \<in> set head_pts
   \<and> curve_estimate head_pts 160 = Inr 890 \<and> final_estimate head_pts 160 = Inr 890"
proof -
  have inc: "increasing_flows head_pts" by (simp add: increasing_flows_def head_pts_def)
  have len: "2 \<le> length head_pts" by (simp add: head_pts_def)
  have mem: "(160, 890) \<in> set head_pts" by (simp add: head_pts_def)
  show ?thesis using inc len mem sample_round_trip [OF inc len mem] by simp
qed

text \<open>
  Claim C8. For the same samples (at least two, strictly increasing flows) and a query
  strictly between the first and the last flow, \<open>build_interp\<close> of master.py,
  \<open>build_interp\<close> of final.py and \<open>interpolate\<close> of veremos.py return the same value;
  so they can differ only on queries at or outside the range of the samples.
\<close>

theorem evaluators_agree_inside:
  assumes "increasing_flows pts" and "2 \<le> length pts"
    and "fst (hd pts) < q" and "q < fst (last pts)"
  shows "\<exists>v. curve_estimate pts q = Inr v \<and> final_estimate pts q = Inr v
             \<and> interpolate pts q = Inr v"
proof -
  obtain p ps where pts: "pts = p # ps" using assms(2) by (cases pts) auto
  have ne: "pts \<noteq> []" using pts by simp
  have lo: "fst p \<le> q" using assms(3) pts by simp
  have hi: "q \<le> fst (last (p # ps))" using assms(4) pts by simp
  have np: "np_interp q pts = Inr (interp_scan q p ps)"
    using np_interp_inside [OF lo hi] pts by simp
  have "curve_estimate pts q = np_interp q pts"
    using curve_estimate_increasing [OF assms(1) ne] build_interp_f_inside [OF ne assms(3,4)]
    by simp
  moreover have "final_estimate pts q = np_interp q pts"
    using final_estimate_increasing [OF assms(1) ne] .
  moreover have "interpolate pts q = np_interp q pts"
    using interpolate_inside [OF ne] assms(3,4) by simp
  ultimately show ?thesis using np by simp
qed

theorem evaluators_agree_inside_witness:
  "increasing_flows head_pts \<and> 2 \<le> length head_pts \<and> fst (hd head_pts) < (120::rat)
   \<and> (120::rat) < fst (last head_pts)
   \<and> (\<exists>v. curve_estimate head_pts 120 = Inr v \<and> final_estimate head_pts 120 = Inr v
            \<and> interpolate head_pts 120 = Inr v)"
proof -
  have inc: "increasing_flows head_pts" by (simp add: increasing_flows_def head_pts_def)
  have len: "2 \<le> length head_pts" by (simp add: head_pts_def)
  have lo: "fst (hd head_pts) < (120::rat)" by (simp add: head_pts_def)
  have hi: "(120::rat) < fst (last head_pts)" by (simp add: head_pts_def)
  show ?thesis using inc len lo hi evaluators_agree_inside [OF inc len lo hi] by simp
qed

lemma evaluators_differ_outside:
  "curve_estimate head_pts 10 = Inr (1955 / 2) \<and> final_estimate head_pts 10 = Inr 970
   \<and> interpolate head_pts 10 = Inr 970"
  by (simp add: curve_estimate_def build_interp_def head_pts_def build_interp_f_def
      final_estimate_def final_build_interp_def final_build_interp_f_def np_interp_def
      interpolate_def less_eq_prod_def)

lemma head_pts_inside_example:
  "curve_estimate head_pts 120 = Inr 925"
  by (simp add: curve_estimate_def build_interp_def head_pts_def build_interp_f_def np_interp_def)

lemma bracket_increasing:
  "increasing_flows (p # ps) \<Longrightarrow> (a, b) \<in> set (brackets (p # ps)) \<Longrightarrow> fst a < fst b"
proof (induction ps arbitrary: p)
  case Nil
  then show ?case by (simp add: brackets_def)
next
  case (Cons r rs)
  from Cons.prems(2) consider "a = p" "b = r" | "(a, b) \<in> set (brackets (r # rs))"
    by (auto simp: brackets_def)
  then show ?case
  proof cases
    case 1
    then show ?thesis using Cons.prems(1) by (simp add: increasing_flows_Cons)
  next
    case 2
    then show ?thesis using Cons.IH [of r] Cons.prems(1) by (simp add: increasing_flows_Cons)
  qed
qed

lemma line_through_mono:
  assumes "fst a < fst b" and "snd a \<le> snd b" and "x \<le> x'"
  shows "line_through a b x \<le> line_through a b x'"
proof -
  obtain x0 y0 x1 y1 where ab: "a = (x0, y0)" "b = (x1, y1)" by (cases a; cases b) auto
  have "0 \<le> (y1 - y0) / (x1 - x0)" using assms(1,2) ab by simp
  then have "(y1 - y0) / (x1 - x0) * (x - x0) \<le> (y1 - y0) / (x1 - x0) * (x' - x0)"
    using assms(3) by (intro mult_left_mono) simp_all
  then show ?thesis using ab by simp
qed

lemma line_through_antimono:
  assumes "fst a < fst b" and "snd b \<le> snd a" and "x \<le> x'"
  shows "line_through a b x' \<le> line_through a b x"
proof -
  obtain x0 y0 x1 y1 where ab: "a = (x0, y0)" "b = (x1, y1)" by (cases a; cases b) auto
  have "(y1 - y0) / (x1 - x0) \<le> 0" using assms(1,2) ab by (simp add: divide_nonpos_pos)
  then have "(y1 - y0) / (x1 - x0) * (x' - x0) \<le> (y1 - y0) / (x1 - x0) * (x - x0)"
    using assms(3) by (intro mult_left_mono_neg) simp_all
  then show ?thesis using ab by simp
qed

lemma line_through_between:
  assumes "fst a < fst b" and "fst a \<le> x" and "x \<le> fst b"
  shows "min (snd a) (snd b) \<le> line_through a b x \<and> line_through a b x \<le> max (snd a) (snd b)"
proof -
  have ne: "fst a \<noteq> fst b" using assms(1) by simp
  show ?thesis
  proof (cases "snd a \<le> snd b")
    case True
    have "line_through a b (fst a) \<le> line_through a b x"
      using line_through_mono [OF assms(1) True assms(2)] .
    moreover have "line_through a b x \<le> line_through a b (fst b)"
      using line_through_mono [OF assms(1) True assms(3)] .
    ultimately show ?thesis
      using True by (simp add: line_through_left [OF ne] line_through_right [OF ne])
  next
    case False
    then have ba: "snd b \<le> snd a" by simp
    have "line_through a b x \<le> line_through a b (fst a)"
      using line_through_antimono [OF assms(1) ba assms(2)] .
    moreover have "line_through a b (fst b) \<le> line_through a b x"
      using line_through_antimono [OF assms(1) ba assms(3)] .
    ultimately show ?thesis
      using ba by (simp add: line_through_left [OF ne] line_through_right [OF ne])
  qed
qed

lemma estimates_in_bracket:
  assumes "increasing_flows pts" and "(a, b) \<in> set (brackets pts)"
    and "fst a \<le> q" and "q \<le> fst b"
    and "fst (hd pts) < q" and "q < fst (last pts)"
  shows "curve_estimate pts q = Inr (line_through a b q)
       \<and> final_estimate pts q = Inr (line_through a b q)"
proof -
  obtain p ps where pts: "pts = p # ps" using assms(2) by (cases pts) (auto simp: brackets_def)
  have ne: "pts \<noteq> []" using pts by simp
  have lo: "fst p \<le> q" using assms(5) pts by simp
  have hi: "q \<le> fst (last (p # ps))" using assms(6) pts by simp
  have "interp_scan q p ps = line_through a b q"
    using interp_scan_bracket [of p ps a b q] assms(1-4) pts by simp
  then have np: "np_interp q pts = Inr (line_through a b q)"
    using np_interp_inside [OF lo hi] pts by simp
  have "curve_estimate pts q = np_interp q pts"
    using curve_estimate_increasing [OF assms(1) ne] build_interp_f_inside [OF ne assms(5,6)]
    by simp
  moreover have "final_estimate pts q = np_interp q pts"
    using final_estimate_increasing [OF assms(1) ne] .
  ultimately show ?thesis using np by simp
qed

lemma bracket_exists:
  "increasing_flows (p # ps) \<Longrightarrow> ps \<noteq> [] \<Longrightarrow> fst p \<le> q \<Longrightarrow> q \<le> fst (last (p # ps)) \<Longrightarrow>
   \<exists>a b. (a, b) \<in> set (brackets (p # ps)) \<and> fst a \<le> q \<and> q \<le> fst b"
proof (induction ps arbitrary: p)
  case Nil
  then show ?case by simp
next
  case (Cons r rs)
  show ?case
  proof (cases "q \<le> fst r")
    case True
    have "(p, r) \<in> set (brackets (p # r # rs))" by (simp add: brackets_def)
    then show ?thesis using True Cons.prems(3) by blast
  next
    case False
    then have rq: "fst r \<le> q" by simp
    have rs: "rs \<noteq> []" using False Cons.prems(4) by auto
    have inc: "increasing_flows (r # rs)"
      using Cons.prems(1) by (simp add: increasing_flows_Cons)
    have "q \<le> fst (last (r # rs))" using Cons.prems(4) by simp
    from Cons.IH [OF inc rs rq this] obtain a b
      where "(a, b) \<in> set (brackets (r # rs))" "fst a \<le> q" "q \<le> fst b" by blast
    moreover from this(1) have "(a, b) \<in> set (brackets (p # r # rs))"
      by (simp add: brackets_def)
    ultimately show ?thesis by blast
  qed
qed

text \<open>
  Claim C7. For a curve with strictly increasing flows and queries \<open>q \<le> q'\<close> strictly
  between the first and the last flow and inside one bracket \<open>(a, b)\<close> of neighbouring
  samples, the estimate at \<open>q\<close> lies between the values of \<open>a\<close> and \<open>b\<close>, and the
  estimate is monotonic on the bracket: it does not fall from \<open>q\<close> to \<open>q'\<close> when the
  bracket rises and does not rise when the bracket falls. This holds for
  \<open>build_interp\<close> of master.py and of final.py; by \<open>bracket_exists\<close> every such query
  has a bracket.
\<close>

theorem interpolation_within_bracket:
  assumes "increasing_flows pts" and "(a, b) \<in> set (brackets pts)"
    and "fst a \<le> q" and "q \<le> q'" and "q' \<le> fst b"
    and "fst (hd pts) < q" and "q' < fst (last pts)"
  shows "\<exists>v v'. curve_estimate pts q = Inr v \<and> final_estimate pts q = Inr v
           \<and> curve_estimate pts q' = Inr v' \<and> final_estimate pts q' = Inr v'
           \<and> min (snd a) (snd b) \<le> v \<and> v \<le> max (snd a) (snd b)
           \<and> (snd a \<le> snd b \<longrightarrow> v \<le> v') \<and> (snd b \<le> snd a \<longrightarrow> v' \<le> v)"
proof -
  obtain p ps where pts: "pts = p # ps" using assms(2) by (cases pts) (auto simp: brackets_def)
  have ab: "fst a < fst b" using bracket_increasing [of p ps a b] assms(1,2) pts by simp
  have qb: "q \<le> fst b" using assms(4,5) by simp
  have aq': "fst a \<le> q'" using assms(3,4) by simp
  have q_hi: "q < fst (last pts)" using assms(4,7) by simp
  have q'_lo: "fst (hd pts) < q'" using assms(4,6) by simp
  have e: "curve_estimate pts q = Inr (line_through a b q)"
      "final_estimate pts q = Inr (line_through a b q)"
    using estimates_in_bracket [OF assms(1,2,3) qb assms(6) q_hi] by simp_all
  have e': "curve_estimate pts q' = Inr (line_through a b q')"
      "final_estimate pts q' = Inr (line_through a b q')"
    using estimates_in_bracket [OF assms(1,2) aq' assms(5) q'_lo assms(7)] by simp_all
  have "min (snd a) (snd b) \<le> line_through a b q \<and> line_through a b q \<le> max (snd a) (snd b)"
    using line_through_between [OF ab assms(3) qb] .
  moreover have "snd a \<le> snd b \<longrightarrow> line_through a b q \<le> line_through a b q'"
    using line_through_mono [OF ab _ assms(4)] by simp
  moreover have "snd b \<le> snd a \<longrightarrow> line_through a b q' \<le> line_through a b q"
    using line_through_antimono [OF ab _ assms(4)] by simp
  ultimately show ?thesis using e e' by simp
qed

theorem interpolation_within_bracket_witness:
  "increasing_flows head_pts \<and> ((80, 960), (160, 890)) \<in> set (brackets head_pts)
   \<and> curve_estimate head_pts 100 = Inr (1885 / 2) \<and> curve_estimate head_pts 120 = Inr 925
   \<and> (\<exists>v v'. curve_estimate head_pts 100 = Inr v \<and> final_estimate head_pts 100 = Inr v
           \<and> curve_estimate head_pts 120 = Inr v' \<and> final_estimate head_pts 120 = Inr v'
           \<and> 890 \<le> v \<and> v \<le> 960 \<and> v' \<le> v)"
proof -
  have inc: "increasing_flows head_pts" by (simp add: increasing_flows_def head_pts_def)
  have br: "((80, 960), (160, 890)) \<in> set (brackets head_pts)"
    by (simp add: brackets_def head_pts_def)
  have v: "curve_estimate head_pts 100 = Inr (1885 / 2)"
    by (simp add: curve_estimate_def build_interp_def head_pts_def build_interp_f_def
        np_interp_def)
  have v': "curve_estimate head_pts 120 = Inr 925"
    by (simp add: curve_estimate_def build_interp_def head_pts_def build_interp_f_def
        np_interp_def)
  have "\<exists>v v'. curve_estimate head_pts 100 = Inr v \<and> final_estimate head_pts 100 = Inr v
           \<and> curve_estimate head_pts 120 = Inr v' \<and> final_estimate head_pts 120 = Inr v'
           \<and> 890 \<le> v \<and> v \<le> 960 \<and> v' \<le> v"
    using interpolation_within_bracket [OF inc br, of 100 120]
    by (simp add: head_pts_def)
  then show ?thesis using inc br v v' by simp
qed

lemma sort_key_Nil_iff: "sort_key f xs = [] \<longleftrightarrow> xs = []"
  by (metis length_sort list.size(3) length_0_conv)

text \<open>
  Claim C4 says that the construction fails when fewer than two points are supplied or two
  points share a flow, and that the failure is raised at construction. \<open>build_interp\<close>
  has no such check: a single point and two points of equal flow are both accepted, the
  single point fails only when the curve is evaluated (\<open>q[1]\<close> or \<open>y[-2]\<close> is out of
  range), and the equal flows raise nothing at all (numpy divides by zero with a warning).
\<close>

theorem build_interp_accepts_invalid:
  "build_interp [(40, 970)] = Inr ([(40, 970)], 40, 40)
   \<and> curve_estimate [(40, 970)] 10 = Inl IndexError
   \<and> curve_estimate [(40, 970)] 50 = Inl IndexError
   \<and> build_interp [(40, 970), (40, 960)] = Inr ([(40, 970), (40, 960)], 40, 40)
   \<and> curve_estimate [(40, 970), (40, 960)] 10 = Inl NonFinite"
  by (simp add: build_interp_def curve_estimate_def build_interp_f_def)

text \<open>
  Claim C4, amended. \<open>build_interp\<close> validates nothing. Its construction fails exactly on
  an empty list of points, with the \<open>ValueError\<close> of the minimum of an empty array, and
  succeeds on every other list, returning the points sorted by flow. With a single point
  every evaluation fails with \<open>IndexError\<close>, so that failure is deferred to the estimate.
\<close>

theorem build_interp_failure:
  "(pts = [] \<longrightarrow> build_interp pts = Inl ValueError)
   \<and> (pts \<noteq> [] \<longrightarrow> (\<exists>lo hi. build_interp pts = Inr (sort_key fst pts, lo, hi)))
   \<and> curve_estimate [p] qx = Inl IndexError"
proof (intro conjI impI)
  assume "pts = []"
  then show "build_interp pts = Inl ValueError" by (simp add: build_interp_def)
next
  assume "pts \<noteq> []"
  then have "sort_key fst pts \<noteq> []" by (simp add: sort_key_Nil_iff)
  then obtain s ss where "sort_key fst pts = s # ss" by (cases "sort_key fst pts") auto
  then show "\<exists>lo hi. build_interp pts = Inr (sort_key fst pts, lo, hi)"
    by (simp add: build_interp_def)
next
  show "curve_estimate [p] qx = Inl IndexError"
    by (simp add: curve_estimate_def build_interp_def build_interp_f_def)
qed

theorem build_interp_failure_witness:
  "build_interp [] = Inl ValueError
   \<and> (\<exists>lo hi. build_interp [(80, 960), (40, 970)] = Inr ([(40, 970), (80, 960)], lo, hi))
   \<and> curve_estimate [(40, 970)] 10 = Inl IndexError"
  using build_interp_failure [of "[]" "(40, 970)" 10]
    build_interp_failure [of "[(80, 960), (40, 970)]" "(40, 970)" 10]
  by simp





section \<open>Facts about the arrangement search\<close>

lemma curve_estimate_total:
  assumes "increasing_flows pts" and "2 \<le> length pts"
  shows "\<exists>v. curve_estimate pts q = Inr v"
proof -
  obtain p0 p1 rest where pts: "pts = p0 # p1 # rest"
    using assms(2) by (cases pts; cases "tl pts") auto
  obtain xs pm pn where pts': "pts = xs @ [pm, pn]"
    using ends_with_two [OF assms(2)] by blast
  have ne: "pts \<noteq> []" using pts by simp
  consider "q \<le> fst p0" | "fst pn \<le> q" | "fst p0 < q" "q < fst pn" by linarith
  then have "\<exists>v. build_interp_f pts q = Inr v"
  proof cases
    case 1
    then show ?thesis using build_interp_f_left [of p0 p1 rest q] assms(1) pts by simp
  next
    case 2
    then show ?thesis using build_interp_f_right [of xs pm pn q] assms(1) pts' by simp
  next
    case 3
    have lo: "fst (hd pts) < q" using 3(1) pts by simp
    have hi: "q < fst (last pts)" using 3(2) pts' by simp
    have "np_interp q pts = Inr (interp_scan q p0 (p1 # rest))"
      using np_interp_inside [of p0 q "p1 # rest"] lo hi pts by simp
    then show ?thesis using build_interp_f_inside [OF ne lo hi] by simp
  qed
  then show ?thesis using curve_estimate_increasing [OF assms(1) ne] by simp
qed

lemma head_interp_total: "\<exists>v. head_interp q = Inr v"
  unfolding head_interp_def
  by (rule curve_estimate_total) (simp_all add: increasing_flows_def head_points_def)

lemma eff_interp_total: "\<exists>v. eff_interp q = Inr v"
  unfolding eff_interp_def
  by (rule curve_estimate_total) (simp_all add: increasing_flows_def eff_points_def)

lemma power_interp_total: "\<exists>v. power_interp q = Inr v"
  unfolding power_interp_def
  by (rule curve_estimate_total) (simp_all add: increasing_flows_def power_points_def)

lemma head_interp_low: "q \<le> 40 \<Longrightarrow> head_interp q = Inr (580 - q / 4)"
  by (simp add: head_interp_def curve_estimate_def build_interp_def head_points_def
      build_interp_f_def field_simps)

lemma candidato_result:
  "(head_interp (Q / of_int n) = Inr 0 \<and> candidato Q H n = Inl ZeroDivisionError)
   \<or> (head_interp (Q / of_int n) \<noteq> Inr 0 \<and> (\<exists>c. candidato Q H n = Inr c \<and> N_par c = n))"
proof -
  obtain Hb where h: "head_interp (Q / of_int n) = Inr Hb" using head_interp_total by blast
  obtain etab where e: "eff_interp (Q / of_int n) = Inr etab" using eff_interp_total by blast
  obtain Pb where p: "power_interp (Q / of_int n) = Inr Pb" using power_interp_total by blast
  show ?thesis by (cases "Hb = 0") (simp_all add: candidato_def Let_def h e p)
qed

lemma candidatos_loop_fault:
  "candidatos_loop Q H ns acc = Inl e \<Longrightarrow> e = ZeroDivisionError"
proof (induction ns arbitrary: acc)
  case Nil
  then show ?case by simp
next
  case (Cons n ns)
  from candidato_result [of Q n H] show ?case
  proof (elim disjE conjE exE)
    assume "candidato Q H n = Inl ZeroDivisionError"
    then show ?thesis using Cons.prems by simp
  next
    fix c assume "candidato Q H n = Inr c"
    then show ?thesis using Cons.prems Cons.IH [of "acc @ [c]"] by simp
  qed
qed

lemma candidatos_loop_rows:
  "candidatos_loop Q H ns acc = Inr cs \<Longrightarrow> map N_par cs = map N_par acc @ ns"
proof (induction ns arbitrary: acc)
  case Nil
  then show ?case by simp
next
  case (Cons n ns)
  from candidato_result [of Q n H] show ?case
  proof (elim disjE conjE exE)
    assume "candidato Q H n = Inl ZeroDivisionError"
    then show ?thesis using Cons.prems by simp
  next
    fix c assume "candidato Q H n = Inr c" "N_par c = n"
    then show ?thesis using Cons.prems Cons.IH [of "acc @ [c]"] by simp
  qed
qed

lemma candidatos_loop_completes:
  "\<forall>n \<in> set ns. head_interp (Q / of_int n) \<noteq> Inr 0 \<Longrightarrow>
   \<exists>cs. candidatos_loop Q H ns acc = Inr cs"
proof (induction ns arbitrary: acc)
  case Nil
  then show ?case by simp
next
  case (Cons n ns)
  from candidato_result [of Q n H] Cons.prems obtain c where "candidato Q H n = Inr c"
    by auto
  then show ?case using Cons.IH [of "acc @ [c]"] Cons.prems by simp
qed

lemma candidatos_rows: "candidatos Q H = Inr cs \<Longrightarrow> map N_par cs = [1..9]"
  unfolding candidatos_def using candidatos_loop_rows [of Q H "[1..9]" "[]" cs] by simp

lemma candidatos_length: "candidatos Q H = Inr cs \<Longrightarrow> length cs = 9"
proof -
  assume "candidatos Q H = Inr cs"
  then have "map N_par cs = [1..9]" by (rule candidatos_rows)
  then have "length (map N_par cs) = length [1..9::int]" by simp
  then show ?thesis by simp
qed

lemma arrangement_search_eq: "arrangement_search Q H = candidatos Q H"
proof (cases "candidatos Q H")
  case (Inl e)
  then show ?thesis by (simp add: arrangement_search_def)
next
  case (Inr cs)
  then have "length cs = 9" by (rule candidatos_length)
  then have "cs \<noteq> []" by auto
  then show ?thesis using Inr by (simp add: arrangement_search_def)
qed

lemma arrangement_search_fault: "arrangement_search Q H = Inl e \<Longrightarrow> e = ZeroDivisionError"
  unfolding arrangement_search_eq candidatos_def by (rule candidatos_loop_fault)

lemmas search_defs = candidato_def head_interp_def eff_interp_def power_interp_def
  curve_estimate_def build_interp_def build_interp_f_def np_interp_def
  head_points_def eff_points_def power_points_def Let_def

lemma ceiling_rat_divide: "\<lceil>rat_of_int a / rat_of_int b\<rceil> = - (- a div b)"
  by (metis ceiling_def floor_divide_of_int_eq minus_divide_left of_int_minus)

lemma ceiling_rat_numeral:
  "\<lceil>numeral a / numeral b :: rat\<rceil> = - (- numeral a div numeral b)"
  using ceiling_rat_divide [of "numeral a" "numeral b"] by simp

lemma ceiling_rat_minus_numeral:
  "\<lceil>- (numeral a / numeral b :: rat)\<rceil> = - (numeral a div numeral b)"
  using ceiling_rat_divide [of "- numeral a" "numeral b"] by simp

lemmas ceiling_rat = ceiling_rat_numeral ceiling_rat_minus_numeral

lemma range_1_10: "[1..9] = [1, 2, 3, 4, 5, 6, 7, 8, 9 :: int]"
  by (simp add: upto_rec1)

lemma candidatos_design_flow:
  "candidatos 800 2400 =
     Inr [\<lparr>N_par = 1, Q_bomba_Ls = 800, H_bomba_m = - 1210, eta_pct = 27,
            P_bomba_kW = 35900, N_est = - 1, H_total_disp_m = 1210, P_total_kW = - 35900\<rparr>,
          \<lparr>N_par = 2, Q_bomba_Ls = 400, H_bomba_m = - 110, eta_pct = 67,
            P_bomba_kW = 10900, N_est = - 21, H_total_disp_m = 2310, P_total_kW = - 457800\<rparr>,
          \<lparr>N_par = 3, Q_bomba_Ls = 800 / 3, H_bomba_m = 770 / 3, eta_pct = 241 / 3,
            P_bomba_kW = 7700 / 3, N_est = 10, H_total_disp_m = 7700 / 3, P_total_kW = 77000\<rparr>,
          \<lparr>N_par = 4, Q_bomba_Ls = 200, H_bomba_m = 440, eta_pct = 251 / 3,
            P_bomba_kW = 1950, N_est = 6, H_total_disp_m = 2640, P_total_kW = 46800\<rparr>,
          \<lparr>N_par = 5, Q_bomba_Ls = 160, H_bomba_m = 490, eta_pct = 81,
            P_bomba_kW = 1750, N_est = 5, H_total_disp_m = 2450, P_total_kW = 43750\<rparr>,
          \<lparr>N_par = 6, Q_bomba_Ls = 400 / 3, H_bomba_m = 1540 / 3, eta_pct = 218 / 3,
            P_bomba_kW = 4900 / 3, N_est = 5, H_total_disp_m = 7700 / 3, P_total_kW = 49000\<rparr>,
          \<lparr>N_par = 7, Q_bomba_Ls = 800 / 7, H_bomba_m = 530, eta_pct = 467 / 7,
            P_bomba_kW = 1550, N_est = 5, H_total_disp_m = 2650, P_total_kW = 54250\<rparr>,
          \<lparr>N_par = 8, Q_bomba_Ls = 100, H_bomba_m = 1085 / 2, eta_pct = 249 / 4,
            P_bomba_kW = 2975 / 2, N_est = 5, H_total_disp_m = 5425 / 2, P_total_kW = 59500\<rparr>,
          \<lparr>N_par = 9, Q_bomba_Ls = 800 / 9, H_bomba_m = 4970 / 9, eta_pct = 529 / 9,
            P_bomba_kW = 12950 / 9, N_est = 5, H_total_disp_m = 24850 / 9,
            P_total_kW = 64750\<rparr>]"
  by (simp add: candidatos_def range_1_10 search_defs ceiling_rat)


lemma candidatos_zero_flow:
  "candidatos 0 2400 =
     Inr [\<lparr>N_par = 1, Q_bomba_Ls = 0, H_bomba_m = 580, eta_pct = 10,
         P_bomba_kW = 1000, N_est = 5, H_total_disp_m = 2900, P_total_kW = 5000\<rparr>,
       \<lparr>N_par = 2, Q_bomba_Ls = 0, H_bomba_m = 580, eta_pct = 10,
         P_bomba_kW = 1000, N_est = 5, H_total_disp_m = 2900, P_total_kW = 10000\<rparr>,
       \<lparr>N_par = 3, Q_bomba_Ls = 0, H_bomba_m = 580, eta_pct = 10,
         P_bomba_kW = 1000, N_est = 5, H_total_disp_m = 2900, P_total_kW = 15000\<rparr>,
       \<lparr>N_par = 4, Q_bomba_Ls = 0, H_bomba_m = 580, eta_pct = 10,
         P_bomba_kW = 1000, N_est = 5, H_total_disp_m = 2900, P_total_kW = 20000\<rparr>,
       \<lparr>N_par = 5, Q_bomba_Ls = 0, H_bomba_m = 580, eta_pct = 10,
         P_bomba_kW = 1000, N_est = 5, H_total_disp_m = 2900, P_total_kW = 25000\<rparr>,
       \<lparr>N_par = 6, Q_bomba_Ls = 0, H_bomba_m = 580, eta_pct = 10,
         P_bomba_kW = 1000, N_est = 5, H_total_disp_m = 2900, P_total_kW = 30000\<rparr>,
       \<lparr>N_par = 7, Q_bomba_Ls = 0, H_bomba_m = 580, eta_pct = 10,
         P_bomba_kW = 1000, N_est = 5, H_total_disp_m = 2900, P_total_kW = 35000\<rparr>,
       \<lparr>N_par = 8, Q_bomba_Ls = 0, H_bomba_m = 580, eta_pct = 10,
         P_bomba_kW = 1000, N_est = 5, H_total_disp_m = 2900, P_total_kW = 40000\<rparr>,
       \<lparr>N_par = 9, Q_bomba_Ls = 0, H_bomba_m = 580, eta_pct = 10,
         P_bomba_kW = 1000, N_est = 5, H_total_disp_m = 2900, P_total_kW = 45000\<rparr>]"
  by (simp add: candidatos_def range_1_10 search_defs ceiling_rat)

lemma candidato_one_pump_at_design_flow:
  assumes "1210 \<le> H" and "H < 2420"
  shows "candidato 800 H 1 =
    Inr \<lparr>N_par = 1, Q_bomba_Ls = 800, H_bomba_m = - 1210, eta_pct = 27, P_bomba_kW = 35900,
         N_est = - 1, H_total_disp_m = 1210, P_total_kW = - 35900\<rparr>"
proof -
  have "\<lceil>H / (- 1210)\<rceil> = - 1"
    using assms by (intro ceiling_unique) (simp_all add: field_simps)
  then have "\<lceil>- (H / 1210)\<rceil> = - 1" by simp
  then show ?thesis by (simp add: search_defs)
qed

text \<open>With a positive per-pump head the stations do cover the required head.\<close>

lemma coverage_when_head_positive:
  assumes "candidato Q H n = Inr c" and "0 < H_bomba_m c"
  shows "H \<le> of_int (N_est c) * H_bomba_m c \<and> H_total_disp_m c = of_int (N_est c) * H_bomba_m c"
proof -
  obtain Hb where h: "head_interp (Q / of_int n) = Inr Hb" using head_interp_total by blast
  obtain etab where e: "eff_interp (Q / of_int n) = Inr etab" using eff_interp_total by blast
  obtain Pb where p: "power_interp (Q / of_int n) = Inr Pb" using power_interp_total by blast
  have c: "H_bomba_m c = Hb \<and> N_est c = \<lceil>H / Hb\<rceil>
      \<and> H_total_disp_m c = of_int \<lceil>H / Hb\<rceil> * Hb"
    using assms(1) by (cases "Hb = 0") (auto simp: candidato_def Let_def h e p)
  then have pos: "0 < Hb" using assms(2) by simp
  have "H / Hb \<le> of_int \<lceil>H / Hb\<rceil>" by (rule le_of_int_ceiling)
  then have "H / Hb * Hb \<le> of_int \<lceil>H / Hb\<rceil> * Hb"
    using pos by (intro mult_right_mono) simp_all
  then have "H \<le> of_int \<lceil>H / Hb\<rceil> * Hb" using pos by simp
  then show ?thesis using c by simp
qed

text \<open>
  Claim C1 says that no candidate has \<open>stations * per-pump head\<close> below the required
  head, and the script's comment on \<open>N_st\<close> says the same (the least number of stations
  that covers the head). The script accepts extrapolated heads without looking at their
  sign: at its own design flow of 800 L/s one pump alone is asked for 800 L/s and two pumps
  for 400 L/s each, the extrapolated heads are -1210 m and -110 m, the ceiling gives -1 and
  -21 stations, and the available heads 1210 m and 2310 m are below the 2400 m required.
  The theorem evaluates the search there.
\<close>

theorem coverage_fails_at_design_flow:
  "(case arrangement_search 800 2400 of
      Inl e \<Rightarrow> False
    | Inr cs \<Rightarrow>
        map N_par cs = [1, 2, 3, 4, 5, 6, 7, 8, 9]
        \<and> map H_bomba_m cs = [- 1210, - 110, 770 / 3, 440, 490, 1540 / 3, 530, 1085 / 2, 4970 / 9]
        \<and> map N_est cs = [- 1, - 21, 10, 6, 5, 5, 5, 5, 5]
        \<and> map H_total_disp_m cs
            = [1210, 2310, 7700 / 3, 2640, 2450, 7700 / 3, 2650, 5425 / 2, 24850 / 9]
        \<and> of_int (N_est (cs ! 0)) * H_bomba_m (cs ! 0) < (2400 :: rat)
        \<and> of_int (N_est (cs ! 1)) * H_bomba_m (cs ! 1) < (2400 :: rat))"
  by (simp add: arrangement_search_eq candidatos_design_flow)

text \<open>
  Claim C10 says that the enumeration appends nine candidates for every input. At a total
  flow of 360 L/s the extrapolated head of a single pump is exactly zero, the division
  \<open>H_total / Hb\<close> raises \<open>ZeroDivisionError\<close> in the first round of the loop, and no
  candidate is appended. The theorem evaluates the search there.
\<close>

theorem zero_head_aborts_enumeration:
  "head_interp 360 = Inr 0
   \<and> candidato 360 2400 1 = Inl ZeroDivisionError
   \<and> candidatos 360 2400 = Inl ZeroDivisionError
   \<and> arrangement_search 360 2400 = Inl ZeroDivisionError"
  by (simp add: arrangement_search_def candidatos_def range_1_10 search_defs)

text \<open>
  Claim C5 says that the search fails with the no-feasible-arrangement error when it
  produces no candidate, for example on a non-positive total flow. The range of \<open>N_par\<close>
  is fixed and nothing is filtered: at a total flow of zero the search returns its nine
  candidates.
\<close>

theorem non_positive_flow_is_searched:
  "arrangement_search 0 2400 =
     Inr [\<lparr>N_par = 1, Q_bomba_Ls = 0, H_bomba_m = 580, eta_pct = 10,
            P_bomba_kW = 1000, N_est = 5, H_total_disp_m = 2900, P_total_kW = 5000\<rparr>,
          \<lparr>N_par = 2, Q_bomba_Ls = 0, H_bomba_m = 580, eta_pct = 10,
            P_bomba_kW = 1000, N_est = 5, H_total_disp_m = 2900, P_total_kW = 10000\<rparr>,
          \<lparr>N_par = 3, Q_bomba_Ls = 0, H_bomba_m = 580, eta_pct = 10,
            P_bomba_kW = 1000, N_est = 5, H_total_disp_m = 2900, P_total_kW = 15000\<rparr>,
          \<lparr>N_par = 4, Q_bomba_Ls = 0, H_bomba_m = 580, eta_pct = 10,
            P_bomba_kW = 1000, N_est = 5, H_total_disp_m = 2900, P_total_kW = 20000\<rparr>,
          \<lparr>N_par = 5, Q_bomba_Ls = 0, H_bomba_m = 580, eta_pct = 10,
            P_bomba_kW = 1000, N_est = 5, H_total_disp_m = 2900, P_total_kW = 25000\<rparr>,
          \<lparr>N_par = 6, Q_bomba_Ls = 0, H_bomba_m = 580, eta_pct = 10,
            P_bomba_kW = 1000, N_est = 5, H_total_disp_m = 2900, P_total_kW = 30000\<rparr>,
          \<lparr>N_par = 7, Q_bomba_Ls = 0, H_bomba_m = 580, eta_pct = 10,
            P_bomba_kW = 1000, N_est = 5, H_total_disp_m = 2900, P_total_kW = 35000\<rparr>,
          \<lparr>N_par = 8, Q_bomba_Ls = 0, H_bomba_m = 580, eta_pct = 10,
            P_bomba_kW = 1000, N_est = 5, H_total_disp_m = 2900, P_total_kW = 40000\<rparr>,
          \<lparr>N_par = 9, Q_bomba_Ls = 0, H_bomba_m = 580, eta_pct = 10,
            P_bomba_kW = 1000, N_est = 5, H_total_disp_m = 2900, P_total_kW = 45000\<rparr>]
   \<and> arrangement_search 0 2400 \<noteq> Inl RuntimeError"
  by (simp add: arrangement_search_eq candidatos_zero_flow)

lemma non_positive_flow_head:
  assumes "Q \<le> 0" and "n \<in> set [1..9]"
  shows "head_interp (Q / of_int n) \<noteq> Inr 0"
proof -
  have n: "0 < rat_of_int n" using assms(2) by simp
  then have q: "Q / of_int n \<le> 0" using assms(1) by (simp add: divide_nonpos_pos)
  then have "head_interp (Q / of_int n) = Inr (580 - Q / of_int n / 4)"
    by (intro head_interp_low) simp
  moreover have "580 - Q / of_int n / 4 \<noteq> 0" using q by simp
  ultimately show ?thesis by simp
qed

lemma arrangement_search_completes:
  assumes "\<forall>n \<in> set [1..9]. head_interp (Q / of_int n) \<noteq> Inr 0"
  shows "\<exists>cs. arrangement_search Q H = Inr cs \<and> map N_par cs = [1..9]"
proof -
  obtain cs where cs: "candidatos Q H = Inr cs"
    using candidatos_loop_completes [OF assms, of H "[]"] by (auto simp: candidatos_def)
  then show ?thesis using candidatos_rows [OF cs] by (simp add: arrangement_search_eq)
qed

text \<open>
  Claim C5, amended. The search never fails with the no-feasible-arrangement
  \<open>RuntimeError\<close>: the range 1..9 is fixed and no candidate is filtered. Whenever none of
  the nine per-pump heads is zero it returns the nine candidates in the order of
  \<open>N_par\<close>; this is so for every non-positive total flow.
\<close>

theorem no_feasible_error_unreachable:
  "arrangement_search Q H \<noteq> Inl RuntimeError
   \<and> ((\<forall>n \<in> set [1..9]. head_interp (Q / of_int n) \<noteq> Inr 0) \<longrightarrow>
        (\<exists>cs. arrangement_search Q H = Inr cs \<and> map N_par cs = [1..9]))
   \<and> (Q \<le> 0 \<longrightarrow> (\<exists>cs. arrangement_search Q H = Inr cs \<and> map N_par cs = [1..9]))"
proof (intro conjI impI)
  show "arrangement_search Q H \<noteq> Inl RuntimeError"
    using arrangement_search_fault [of Q H RuntimeError] by auto
next
  assume "\<forall>n \<in> set [1..9]. head_interp (Q / of_int n) \<noteq> Inr 0"
  then show "\<exists>cs. arrangement_search Q H = Inr cs \<and> map N_par cs = [1..9]"
    by (rule arrangement_search_completes)
next
  assume "Q \<le> 0"
  then have "\<forall>n \<in> set [1..9]. head_interp (Q / of_int n) \<noteq> Inr 0"
    using non_positive_flow_head by blast
  then show "\<exists>cs. arrangement_search Q H = Inr cs \<and> map N_par cs = [1..9]"
    by (rule arrangement_search_completes)
qed

theorem no_feasible_error_unreachable_witness:
  "map (\<lambda>n. head_interp (800 / of_int n)) [1, 2, 3, 4, 5, 6, 7, 8, 9]
     = [Inr (- 1210), Inr (- 110), Inr (770 / 3), Inr 440, Inr 490, Inr (1540 / 3), Inr 530,
        Inr (1085 / 2), Inr (4970 / 9)]
   \<and> arrangement_search 800 2400 \<noteq> Inl RuntimeError
   \<and> (\<exists>cs. arrangement_search 800 2400 = Inr cs \<and> map N_par cs = [1, 2, 3, 4, 5, 6, 7, 8, 9])
   \<and> (- 800 :: rat) \<le> 0
   \<and> arrangement_search (- 800) 2400 \<noteq> Inl RuntimeError
   \<and> (\<exists>cs. arrangement_search (- 800) 2400 = Inr cs
         \<and> map N_par cs = [1, 2, 3, 4, 5, 6, 7, 8, 9])"
proof -
  have heads: "map (\<lambda>n. head_interp (800 / of_int n)) [1, 2, 3, 4, 5, 6, 7, 8, 9]
     = [Inr (- 1210), Inr (- 110), Inr (770 / 3), Inr 440, Inr 490, Inr (1540 / 3), Inr 530,
        Inr (1085 / 2), Inr (4970 / 9)]"
    by (simp add: search_defs)
  then have "\<forall>n \<in> set [1..9]. head_interp (800 / of_int n) \<noteq> Inr 0"
    by (simp add: range_1_10)
  then show ?thesis
    using heads no_feasible_error_unreachable [of 800 2400]
      no_feasible_error_unreachable [of "- 800" 2400]
    by (simp add: range_1_10)
qed

section \<open>The sorted table of candidates\<close>

text \<open>A stable sort of the candidates is one of the tables the sort may return.\<close>

lemma df_candidatos_stable_sort:
  "arrangement_search Q H = Inr cs \<Longrightarrow> df_candidatos Q H (sort_key P_total_kW cs)"
  by (simp add: df_candidatos_def sort_values_def)




end
